theory Spec2Isabelle
  imports Complex_Main "HOL-Library.Word" "HOL-Library.AList"
begin

section \<open>Data model of OrderBook.cpp\<close>

text \<open>
  Machine integers: every \<open>uint64_t\<close> of the source (order ids, quantities, the
  aggregated quantity of a price level, the time stamp) is a \<open>64 word\<close>, so \<open>+\<close> and
  \<open>-\<close> wrap around as they do in C++.

  Prices: the source uses \<open>double\<close>. The book only compares prices (\<open>!=\<close> in
  \<open>amendOrder\<close>, \<open><\<close> and \<open>>\<close> inside the two \<open>std::map\<close>s) and never does arithmetic on
  them. On the finite doubles these comparisons agree with the comparisons of the rational
  numbers they denote, so a price is a \<open>rat\<close>; the two zeros of \<open>double\<close>, which compare
  equal, are the one price 0. Infinities and NaN are outside this model.

  Pointers and iterators: a node of \<open>order_storage\<close> (a \<open>std::list<Order>\<close>, whose nodes
  never move) is identified by a \<open>handle\<close>, the address of the node. Both
  \<open>std::list<Order>::iterator\<close> (the values of \<open>order_lookup\<close>) and \<open>Order*\<close> (the elements
  of \<open>Limit::orders\<close>) are handles.
\<close>

type_synonym u64 = "64 word"
type_synonym handle = nat

record Limit =
  total_quantity :: u64
  orders :: "handle list"

text \<open>
  The field \<open>position_in_limit\<close> of the source is the iterator of the order's own node
  inside \<open>Limit::orders\<close>. It is not stored in the model: the node it denotes is the
  occurrence of the order's handle in the list. The iterator is valid exactly when that
  occurrence exists; erasing through it when it does not is undefined behaviour, which the
  model reports as an error (see \<open>remove_order_internal\<close>).
\<close>

record Order =
  order_id :: u64
  is_buy :: bool
  price :: rat
  quantity :: u64
  timestamp_ns :: u64

text \<open>\<open>struct PriceLevel { double price; uint64_t total_quantity; }\<close>; the field names
  carry a suffix because they clash with those of \<open>Order\<close> and \<open>Limit\<close>.\<close>

record PriceLevel =
  price_pl :: rat
  total_quantity_pl :: u64

text \<open>
  The private members of \<open>class OrderBook\<close>. A \<open>std::map\<close> is the list of its entries in
  iteration order: \<open>bids\<close> is kept in descending order of price (\<open>std::greater\<close>), \<open>asks\<close> in
  ascending order. \<open>order_storage\<close> is the list of its nodes, each with its address.
\<close>

record OrderBook =
  bids :: "(rat \<times> Limit) list"
  asks :: "(rat \<times> Limit) list"
  order_storage :: "(handle \<times> Order) list"
  order_lookup :: "u64 \<rightharpoonup> handle"
  next_order_id :: u64

text \<open>Undefined behaviour of the C++ program, as values.\<close>

datatype error =
  InvalidOrderIterator    \<comment> \<open>an iterator of \<open>order_lookup\<close> that points to no node\<close>
  | InvalidLimitPosition  \<comment> \<open>\<open>limit.orders.erase\<close> through a \<open>position_in_limit\<close> that is
                              not a node of that list\<close>
  | LengthError           \<comment> \<open>\<open>std::length_error\<close> thrown by \<open>reserve\<close>\<close>
  | BadAlloc              \<comment> \<open>\<open>std::bad_alloc\<close> thrown by \<open>reserve\<close>\<close>

text \<open>
  The two exceptions are those of \<open>reserve(depth)\<close> in \<open>getSnapshot\<close>, whose request has
  the size the caller chooses. The allocation of a single node of a list or of a map, in
  the three mutating calls, is assumed to succeed. \<open>printBook\<close> only formats the result of
  \<open>getSnapshot\<close> and is left out.
\<close>

definition empty_book :: OrderBook where
  "empty_book = \<lparr>bids = [], asks = [], order_storage = [], order_lookup = Map.empty,
                 next_order_id = 1\<rparr>"

section \<open>The containers\<close>

text \<open>\<open>emplace_back\<close> allocates a node at an address that no live node has. The model
  takes the first address above all addresses in use.\<close>

fun fresh_handle :: "(handle \<times> Order) list \<Rightarrow> handle" where
  "fresh_handle [] = 0"
| "fresh_handle ((h, _) # st) = max (Suc h) (fresh_handle st)"

text \<open>Insertion of a new key into a \<open>std::map\<close> with comparison \<open>lt\<close>.\<close>

fun insert_level :: "(rat \<Rightarrow> rat \<Rightarrow> bool) \<Rightarrow> rat \<Rightarrow> Limit \<Rightarrow> (rat \<times> Limit) list
    \<Rightarrow> (rat \<times> Limit) list" where
  "insert_level lt p l [] = [(p, l)]"
| "insert_level lt p l ((p', l') # rest) =
     (if lt p p' then (p, l) # (p', l') # rest else (p', l') # insert_level lt p l rest)"

text \<open>\<open>book_side[price]\<close>: \<open>operator[]\<close> inserts a default-constructed \<open>Limit\<close> when the
  key is absent. The result is the map in which the entry exists.\<close>

definition subscript :: "(rat \<Rightarrow> rat \<Rightarrow> bool) \<Rightarrow> (rat \<times> Limit) list \<Rightarrow> rat
    \<Rightarrow> (rat \<times> Limit) list" where
  "subscript lt book_side p =
     (case map_of book_side p of
        Some _ \<Rightarrow> book_side
      | None \<Rightarrow> insert_level lt p \<lparr>total_quantity = 0, orders = []\<rparr> book_side)"

section \<open>The private helpers\<close>

text \<open>
  The helpers of the source take \<open>order_it\<close> and read the order through it. Here they take
  the handle and the record it points to at the moment of the call.
\<close>

definition add_order_internal :: "(rat \<Rightarrow> rat \<Rightarrow> bool) \<Rightarrow> (rat \<times> Limit) list \<Rightarrow> handle
    \<Rightarrow> Order \<Rightarrow> (rat \<times> Limit) list" where
  "add_order_internal lt book_side order_it ord =
     (let p = price ord in
      AList.map_entry p
        (\<lambda>limit. limit\<lparr>orders := orders limit @ [order_it],
                       total_quantity := total_quantity limit + quantity ord\<rparr>)
        (subscript lt book_side p))"

definition remove_order_internal :: "(rat \<times> Limit) list \<Rightarrow> handle \<Rightarrow> Order
    \<Rightarrow> error + (rat \<times> Limit) list" where
  "remove_order_internal book_side order_it ord =
     (let p = price ord in
      case map_of book_side p of
        None \<Rightarrow> Inr book_side
      | Some limit \<Rightarrow>
          if order_it \<notin> set (orders limit) then Inl InvalidLimitPosition
          else
            let limit' = limit\<lparr>total_quantity := total_quantity limit - quantity ord,
                               orders := remove1 order_it (orders limit)\<rparr>
            in if total_quantity limit' = 0 then Inr (AList.delete p book_side)
               else Inr (AList.update p limit' book_side))"

section \<open>The public operations\<close>

text \<open>The time stamp read from the clock is the parameter \<open>ts\<close>.\<close>

definition newOrder :: "OrderBook \<Rightarrow> bool \<Rightarrow> rat \<Rightarrow> u64 \<Rightarrow> u64 \<Rightarrow> u64 \<times> OrderBook" where
  "newOrder s buy p q ts =
     (let current_id = next_order_id s;
          s1 = s\<lparr>next_order_id := next_order_id s + 1\<rparr>;
          ord = \<lparr>order_id = current_id, is_buy = buy, price = p, quantity = q,
                 timestamp_ns = ts\<rparr>;
          order_it = fresh_handle (order_storage s1);
          s2 = s1\<lparr>order_storage := order_storage s1 @ [(order_it, ord)]\<rparr>;
          s3 = s2\<lparr>order_lookup := (order_lookup s2)(current_id \<mapsto> order_it)\<rparr>;
          s4 = (if buy then s3\<lparr>bids := add_order_internal (>) (bids s3) order_it ord\<rparr>
                else s3\<lparr>asks := add_order_internal (<) (asks s3) order_it ord\<rparr>)
      in (current_id, s4))"

definition cancelOrder :: "OrderBook \<Rightarrow> u64 \<Rightarrow> error + bool \<times> OrderBook" where
  "cancelOrder s oid =
     (case order_lookup s oid of
        None \<Rightarrow> Inr (False, s)
      | Some order_it \<Rightarrow>
          (case map_of (order_storage s) order_it of
             None \<Rightarrow> Inl InvalidOrderIterator
           | Some ord \<Rightarrow>
               (case (if is_buy ord
                      then map_sum id (\<lambda>b. s\<lparr>bids := b\<rparr>)
                             (remove_order_internal (bids s) order_it ord)
                      else map_sum id (\<lambda>a. s\<lparr>asks := a\<rparr>)
                             (remove_order_internal (asks s) order_it ord)) of
                  Inl e \<Rightarrow> Inl e
                | Inr s1 \<Rightarrow>
                    Inr (True, s1\<lparr>order_lookup := (order_lookup s1)(oid := None),
                                  order_storage := AList.delete order_it (order_storage s1)\<rparr>))))"

definition amendOrder :: "OrderBook \<Rightarrow> u64 \<Rightarrow> rat \<Rightarrow> u64 \<Rightarrow> error + bool \<times> OrderBook" where
  "amendOrder s oid new_price new_quantity =
     (case order_lookup s oid of
        None \<Rightarrow> Inr (False, s)
      | Some order_it \<Rightarrow>
          (case map_of (order_storage s) order_it of
             None \<Rightarrow> Inl InvalidOrderIterator
           | Some ord \<Rightarrow>
               if price ord \<noteq> new_price then
                 (case (if is_buy ord
                        then map_sum id (\<lambda>b. s\<lparr>bids := b\<rparr>)
                               (remove_order_internal (bids s) order_it ord)
                        else map_sum id (\<lambda>a. s\<lparr>asks := a\<rparr>)
                               (remove_order_internal (asks s) order_it ord)) of
                    Inl e \<Rightarrow> Inl e
                  | Inr s1 \<Rightarrow>
                      let ord' = ord\<lparr>price := new_price, quantity := new_quantity\<rparr>;
                          s2 = s1\<lparr>order_storage :=
                                    AList.update order_it ord' (order_storage s1)\<rparr>
                      in Inr (True,
                              if is_buy ord'
                              then s2\<lparr>bids := add_order_internal (>) (bids s2) order_it ord'\<rparr>
                              else s2\<lparr>asks := add_order_internal (<) (asks s2) order_it ord'\<rparr>))
               else
                 let old_quantity = quantity ord;
                     quantity_delta = sint (new_quantity - old_quantity);
                     ord' = ord\<lparr>quantity := new_quantity\<rparr>;
                     s1 = s\<lparr>order_storage := AList.update order_it ord' (order_storage s)\<rparr>;
                     bump = (\<lambda>limit. limit\<lparr>total_quantity :=
                                total_quantity limit + word_of_int quantity_delta\<rparr>)
                 in Inr (True,
                         if is_buy ord'
                         then s1\<lparr>bids := AList.map_entry (price ord') bump
                                           (subscript (>) (bids s1) (price ord'))\<rparr>
                         else s1\<lparr>asks := AList.map_entry (price ord') bump
                                           (subscript (<) (asks s1) (price ord'))\<rparr>)))"



definition getBBO :: "OrderBook \<Rightarrow> PriceLevel \<times> PriceLevel" where
  "getBBO s =
     (let best_bid = \<lparr>price_pl = 0, total_quantity_pl = 0\<rparr>;
          best_ask = \<lparr>price_pl = 0, total_quantity_pl = 0\<rparr>;
          best_bid = (case bids s of
                        [] \<Rightarrow> best_bid
                      | top_bid # _ \<Rightarrow>
                          \<lparr>price_pl = fst top_bid,
                           total_quantity_pl = total_quantity (snd top_bid)\<rparr>);
          best_ask = (case asks s of
                        [] \<Rightarrow> best_ask
                      | top_ask # _ \<Rightarrow>
                          \<lparr>price_pl = fst top_ask,
                           total_quantity_pl = total_quantity (snd top_ask)\<rparr>)
      in (best_bid, best_ask))"

section \<open>Sequences of calls\<close>

text \<open>
  A client such as \<open>main\<close> issues the three mutating calls one after the other. A
  \<open>command\<close> is one call with its arguments, \<open>step\<close> performs it and \<open>run\<close> performs a
  list of them from a given book, collecting what each call returned. A book is reachable
  when \<open>run empty_book cs\<close> returns it for some \<open>cs\<close>.
\<close>

datatype command =
  NewOrder bool rat u64 u64
  | CancelOrder u64
  | AmendOrder u64 rat u64

datatype result = NewId u64 | Success bool

fun step :: "OrderBook \<Rightarrow> command \<Rightarrow> error + result \<times> OrderBook" where
  "step s (NewOrder buy p q ts) = Inr (map_prod NewId id (newOrder s buy p q ts))"
| "step s (CancelOrder oid) = map_sum id (map_prod Success id) (cancelOrder s oid)"
| "step s (AmendOrder oid p q) = map_sum id (map_prod Success id) (amendOrder s oid p q)"

fun run :: "OrderBook \<Rightarrow> command list \<Rightarrow> error + result list \<times> OrderBook" where
  "run s [] = Inr ([], s)"
| "run s (c # cs) =
     (case step s c of
        Inl e \<Rightarrow> Inl e
      | Inr (r, s') \<Rightarrow>
          (case run s' cs of Inl e \<Rightarrow> Inl e | Inr (rs, s'') \<Rightarrow> Inr (r # rs, s'')))"

section \<open>Notions used by the properties\<close>

text \<open>The table of one side, and the level of a price in a table, with the values of
  a default-constructed \<open>Limit\<close> where the table has no such level.\<close>

definition book_side :: "OrderBook \<Rightarrow> bool \<Rightarrow> (rat \<times> Limit) list" where
  "book_side s buy = (if buy then bids s else asks s)"

definition total_at :: "(rat \<times> Limit) list \<Rightarrow> rat \<Rightarrow> u64" where
  "total_at t p = (case map_of t p of None \<Rightarrow> 0 | Some l \<Rightarrow> total_quantity l)"

definition members_at :: "(rat \<times> Limit) list \<Rightarrow> rat \<Rightarrow> handle list" where
  "members_at t p = (case map_of t p of None \<Rightarrow> [] | Some l \<Rightarrow> orders l)"



text \<open>The entry that \<open>getSnapshot\<close> and \<open>getBBO\<close> report for a level of a table.\<close>

definition level_of :: "rat \<times> Limit \<Rightarrow> PriceLevel" where
  "level_of pair = \<lparr>price_pl = fst pair, total_quantity_pl = total_quantity (snd pair)\<rparr>"

text \<open>
  The two invariants of the specification's data model, as tests on a book. The sum of
  the quantities of the members of a level is taken in \<open>uint64_t\<close>, as
  \<open>total_quantity\<close> is; a handle that denotes no node counts as 0.
\<close>

definition level_quantity_sum :: "(handle \<times> Order) list \<Rightarrow> Limit \<Rightarrow> u64" where
  "level_quantity_sum st l =
     sum_list (map (\<lambda>h. case map_of st h of None \<Rightarrow> 0 | Some ord \<Rightarrow> quantity ord)
                 (orders l))"

definition quantity_sum_invariant :: "OrderBook \<Rightarrow> bool" where
  "quantity_sum_invariant s =
     list_all (\<lambda>(p, l). total_quantity l = level_quantity_sum (order_storage s) l)
       (bids s @ asks s)"

definition level_existence_invariant :: "OrderBook \<Rightarrow> bool" where
  "level_existence_invariant s =
     list_all (\<lambda>(p, l). total_quantity l \<noteq> 0 \<and> orders l \<noteq> []) (bids s @ asks s)"

text \<open>Properties of the books that calls produce: the tables are in the order of their
  comparison, every index entry leads to a node that carries the entry's id, and the ids
  in the index are below the counter.\<close>

definition sorted_book :: "OrderBook \<Rightarrow> bool" where
  "sorted_book s = (sorted_wrt (>) (map fst (bids s)) \<and> sorted_wrt (<) (map fst (asks s)))"

definition index_consistent :: "OrderBook \<Rightarrow> bool" where
  "index_consistent s =
     (\<forall>k h. order_lookup s k = Some h \<longrightarrow>
        (\<exists>ord. map_of (order_storage s) h = Some ord \<and> order_id ord = k))"

definition issued_ids_below_counter :: "OrderBook \<Rightarrow> bool" where
  "issued_ids_below_counter s = (\<forall>k \<in> dom (order_lookup s). k < next_order_id s)"

subsection \<open>Cancel and re-insert, in the words of the specification\<close>

text \<open>
  The specification describes an amendment that changes the price as a cancellation
  followed by a re-insertion under the same id. \<open>reinsertOrder\<close> is the insertion of
  section 4.3 of the specification without the assignment of a new id: the order is
  allocated in the arena, registered in the index under its id, and added to the level of
  its price on its side. The slot is the one that the cancellation has just freed, so that
  the handles of the two books can be compared. \<open>cancel_then_reinsert\<close> keeps the id, the
  side and the time stamp of the order and takes the new price and quantity.
\<close>

definition reinsertOrder :: "OrderBook \<Rightarrow> handle \<Rightarrow> Order \<Rightarrow> OrderBook" where
  "reinsertOrder s order_it ord =
     (let s2 = s\<lparr>order_storage := order_storage s @ [(order_it, ord)]\<rparr>;
          s3 = s2\<lparr>order_lookup := (order_lookup s2)(order_id ord \<mapsto> order_it)\<rparr>
      in if is_buy ord then s3\<lparr>bids := add_order_internal (>) (bids s3) order_it ord\<rparr>
         else s3\<lparr>asks := add_order_internal (<) (asks s3) order_it ord\<rparr>)"

definition cancel_then_reinsert :: "OrderBook \<Rightarrow> u64 \<Rightarrow> rat \<Rightarrow> u64
    \<Rightarrow> error + bool \<times> OrderBook" where
  "cancel_then_reinsert s oid new_price new_quantity =
     (case order_lookup s oid of
        None \<Rightarrow> Inr (False, s)
      | Some order_it \<Rightarrow>
          (case map_of (order_storage s) order_it of
             None \<Rightarrow> Inl InvalidOrderIterator
           | Some ord \<Rightarrow>
               (case cancelOrder s oid of
                  Inl e \<Rightarrow> Inl e
                | Inr (ok, s1) \<Rightarrow>
                    Inr (ok, reinsertOrder s1 order_it
                               (ord\<lparr>price := new_price, quantity := new_quantity\<rparr>)))))"

text \<open>
  What a book consists of, for the comparison of two books: the two tables, the content of
  every node of the arena, the index and the counter. The place of a node inside the list
  \<open>order_storage\<close> is left out; the program never iterates over that list.
\<close>

definition book_view :: "OrderBook \<Rightarrow>
    (rat \<times> Limit) list \<times> (rat \<times> Limit) list \<times> (handle \<rightharpoonup> Order) \<times> (u64 \<rightharpoonup> handle) \<times> u64" where
  "book_view s = (bids s, asks s, map_of (order_storage s), order_lookup s, next_order_id s)"

subsection \<open>The books of \<open>main\<close>\<close>

text \<open>The books after each of the six \<open>newOrder\<close> calls of \<open>main\<close>; the time stamps are
  chosen.\<close>

definition main_1 :: OrderBook where
  "main_1 = snd (newOrder empty_book True 100 10 1000)"

definition main_2 :: OrderBook where
  "main_2 = snd (newOrder main_1 True 100 5 2000)"

definition main_3 :: OrderBook where
  "main_3 = snd (newOrder main_2 True 99 20 3000)"

definition main_4 :: OrderBook where
  "main_4 = snd (newOrder main_3 False 100 15 4000)"

definition main_5 :: OrderBook where
  "main_5 = snd (newOrder main_4 False 102 10 5000)"

definition main_6 :: OrderBook where
  "main_6 = snd (newOrder main_5 False 101 5 6000)"

section \<open>Facts about the containers and the helpers\<close>

lemma fresh_handle_above: "(h, ord) \<in> set st \<Longrightarrow> h < fresh_handle st"
  by (induction st) auto

lemma fresh_handle_unused: "map_of st (fresh_handle st) = None"
  using fresh_handle_above [of "fresh_handle st" _ st]
  by (cases "map_of st (fresh_handle st)") (auto dest: map_of_SomeD)

lemma map_of_insert_level:
  "map_of t p = None \<Longrightarrow> map_of (insert_level lt p l t) = (map_of t)(p \<mapsto> l)"
  by (induction t) (auto simp: fun_upd_twist split: if_splits)

lemma delete_insert_level:
  "AList.delete p (insert_level lt p l t) = AList.delete p t"
  by (induction t) auto

lemma delete_map_entry:
  "AList.delete p (AList.map_entry p f t) = AList.delete p t"
  by (induction t) auto

lemma map_of_subscript:
  "map_of (subscript lt t p) =
     (map_of t)(p \<mapsto> \<lparr>total_quantity = total_at t p, orders = members_at t p\<rparr>)"
  by (auto simp: subscript_def total_at_def members_at_def map_of_insert_level
      split: option.splits)

lemma delete_subscript: "AList.delete p (subscript lt t p) = AList.delete p t"
  by (simp add: subscript_def delete_insert_level split: option.splits)

lemma map_of_add_order_internal:
  "map_of (add_order_internal lt t h ord) =
     (map_of t)(price ord \<mapsto>
        \<lparr>total_quantity = total_at t (price ord) + quantity ord,
         orders = members_at t (price ord) @ [h]\<rparr>)"
  by (simp add: add_order_internal_def Let_def map_of_map_entry map_of_subscript)

lemma delete_add_order_internal:
  "price ord = p \<Longrightarrow> AList.delete p (add_order_internal lt t h ord) = AList.delete p t"
  by (simp add: add_order_internal_def Let_def delete_map_entry delete_subscript)

lemma map_sum_eq_Inr: "map_sum f g x = Inr y \<longleftrightarrow> (\<exists>z. x = Inr z \<and> y = g z)"
  by (cases x) auto

lemma subscript_present: "map_of t p = Some l \<Longrightarrow> subscript lt t p = t"
  by (simp add: subscript_def)

lemma map_of_update_as_reinsert:
  "map_of (AList.update h v st) = [h \<mapsto> v] ++ map_of (AList.delete h st)"
  by (rule ext) (auto simp: update_conv' delete_conv' map_add_def split: option.splits)

lemma uint_signed_delta:
  fixes total new old :: u64
  shows "uint (total + (new - old)) = (uint total + (uint new - uint old)) mod 2 ^ 64"
  by (simp add: uint_word_ariths mod_simps)

lemma newOrder_storage:
  "order_storage (snd (newOrder s buy p q ts)) =
     order_storage s @ [(fresh_handle (order_storage s),
        \<lparr>order_id = next_order_id s, is_buy = buy, price = p, quantity = q,
         timestamp_ns = ts\<rparr>)]"
  by (simp add: newOrder_def Let_def)

lemma newOrder_lookup:
  "order_lookup (snd (newOrder s buy p q ts)) =
     (order_lookup s)(next_order_id s \<mapsto> fresh_handle (order_storage s))"
  by (simp add: newOrder_def Let_def)

lemma newOrder_nodes:
  "map_of (order_storage (snd (newOrder s buy p q ts))) =
     (map_of (order_storage s))(fresh_handle (order_storage s) \<mapsto>
        \<lparr>order_id = next_order_id s, is_buy = buy, price = p, quantity = q,
         timestamp_ns = ts\<rparr>)"
  by (rule ext)
     (simp add: newOrder_def Let_def fresh_handle_unused map_add_def split: option.splits)

lemma newOrder_counter: "next_order_id (snd (newOrder s buy p q ts)) = next_order_id s + 1"
  by (simp add: newOrder_def Let_def)


subsection \<open>The queries\<close>





subsection \<open>The tables stay in the order of their comparison\<close>



lemma set_insert_level: "set (insert_level lt p l t) = insert (p, l) (set t)"
  by (induction t) (auto split: if_splits)

lemma keys_insert_level:
  "set (map fst (insert_level lt p l t)) = insert p (set (map fst t))"
  by (simp add: set_insert_level)


lemma sorted_insert_level:
  assumes trans: "\<And>a b c. lt a b \<Longrightarrow> lt b c \<Longrightarrow> lt a c"
      and total: "\<And>a b. a \<noteq> b \<Longrightarrow> \<not> lt a b \<Longrightarrow> lt b a"
  shows "sorted_wrt lt (map fst t) \<Longrightarrow> p \<notin> set (map fst t)
         \<Longrightarrow> sorted_wrt lt (map fst (insert_level lt p l t))"
proof (induction t)
  case Nil
  show ?case by simp
next
  case (Cons e t)
  obtain p' l' where e: "e = (p', l')" by (cases e)
  show ?case
  proof (cases "lt p p'")
    case True
    with Cons.prems e show ?thesis by (auto intro: trans)
  next
    case False
    with Cons.prems e have "lt p' p" by (auto intro: total)
    with False Cons e show ?thesis
      using keys_insert_level [of lt p l t] by auto
  qed
qed

lemma keys_map_entry: "map fst (AList.map_entry k f t) = map fst t"
  by (induction t) auto

lemma sorted_subscript:
  assumes "\<And>a b c. lt a b \<Longrightarrow> lt b c \<Longrightarrow> lt a c"
      and "\<And>a b. a \<noteq> b \<Longrightarrow> \<not> lt a b \<Longrightarrow> lt b a"
      and "sorted_wrt lt (map fst t)"
  shows "sorted_wrt lt (map fst (subscript lt t p))"
proof (cases "map_of t p")
  case None
  then have "p \<notin> set (map fst t)" by (simp add: map_of_eq_None_iff)
  with assms None show ?thesis
    by (simp add: subscript_def sorted_insert_level)
next
  case (Some l)
  with assms(3) show ?thesis by (simp add: subscript_def)
qed

lemma sorted_add_order_internal:
  assumes "\<And>a b c. lt a b \<Longrightarrow> lt b c \<Longrightarrow> lt a c"
      and "\<And>a b. a \<noteq> b \<Longrightarrow> \<not> lt a b \<Longrightarrow> lt b a"
      and "sorted_wrt lt (map fst t)"
  shows "sorted_wrt lt (map fst (add_order_internal lt t h ord))"
  using sorted_subscript [OF assms]
  by (simp add: add_order_internal_def Let_def keys_map_entry)

lemma sorted_delete:
  "sorted_wrt lt (map fst t) \<Longrightarrow> sorted_wrt lt (map fst (AList.delete p t))"
  by (simp add: delete_keys removeAll_filter_not_eq sorted_wrt_filter)

lemma keys_update_present:
  "map_of t p = Some l \<Longrightarrow> map fst (AList.update p v t) = map fst t"
  by (induction t) (auto split: if_splits)

lemma sorted_remove_order_internal:
  assumes "remove_order_internal t h ord = Inr t'" and "sorted_wrt lt (map fst t)"
  shows "sorted_wrt lt (map fst t')"
proof (cases "map_of t (price ord)")
  case None
  with assms show ?thesis by (simp add: remove_order_internal_def)
next
  case (Some limit)
  with assms show ?thesis
    by (auto simp: remove_order_internal_def Let_def sorted_delete keys_update_present
        split: if_splits)
qed

lemma sorted_bump:
  assumes "\<And>a b c. lt a b \<Longrightarrow> lt b c \<Longrightarrow> lt a c"
      and "\<And>a b. a \<noteq> b \<Longrightarrow> \<not> lt a b \<Longrightarrow> lt b a"
      and "sorted_wrt lt (map fst t)"
  shows "sorted_wrt lt (map fst (AList.map_entry p f (subscript lt t p)))"
  using sorted_subscript [OF assms] by (simp add: keys_map_entry)

lemma newOrder_sorted: "sorted_book s \<Longrightarrow> sorted_book (snd (newOrder s buy p q ts))"
  by (cases buy)
     (auto simp: sorted_book_def newOrder_def Let_def intro!: sorted_add_order_internal)

lemma cancelOrder_sorted:
  assumes "cancelOrder s oid = Inr (ok, s')" and "sorted_book s"
  shows "sorted_book s'"
  using assms
  by (auto simp: cancelOrder_def sorted_book_def map_sum_eq_Inr
      split: option.splits if_splits sum.splits
      dest: sorted_remove_order_internal)

lemma amendOrder_sorted:
  assumes "amendOrder s oid p q = Inr (ok, s')" and "sorted_book s"
  shows "sorted_book s'"
  using assms
  by (auto simp: amendOrder_def sorted_book_def map_sum_eq_Inr Let_def
      split: option.splits if_splits sum.splits
      dest: sorted_remove_order_internal intro!: sorted_add_order_internal sorted_bump)

lemma step_sorted:
  assumes "step s c = Inr (r, s')" and "sorted_book s"
  shows "sorted_book s'"
proof (cases c)
  case (NewOrder buy p q ts)
  with assms show ?thesis
    using newOrder_sorted [of s buy p q ts] by (cases "newOrder s buy p q ts") auto
next
  case (CancelOrder oid)
  with assms show ?thesis by (auto simp: map_sum_eq_Inr dest: cancelOrder_sorted)
next
  case (AmendOrder oid p q)
  with assms show ?thesis by (auto simp: map_sum_eq_Inr dest: amendOrder_sorted)
qed

lemma run_sorted:
  "run s cs = Inr (rs, s') \<Longrightarrow> sorted_book s \<Longrightarrow> sorted_book s'"
proof (induction cs arbitrary: s rs)
  case Nil
  then show ?case by simp
next
  case (Cons c cs)
  then show ?case
    by (auto split: sum.splits prod.splits dest: step_sorted)
qed

lemma reachable_sorted: "run empty_book cs = Inr (rs, s) \<Longrightarrow> sorted_book s"
  by (erule run_sorted) (simp add: sorted_book_def empty_book_def)

subsection \<open>The index leads to nodes that carry the id\<close>

lemma newOrder_index_consistent:
  assumes "index_consistent s"
  shows "index_consistent (snd (newOrder s buy p q ts))"
  unfolding index_consistent_def newOrder_lookup newOrder_nodes
proof (intro allI impI)
  fix k h
  assume k: "((order_lookup s)(next_order_id s \<mapsto> fresh_handle (order_storage s))) k = Some h"
  show "\<exists>ord. ((map_of (order_storage s))(fresh_handle (order_storage s) \<mapsto>
        \<lparr>order_id = next_order_id s, is_buy = buy, price = p, quantity = q,
         timestamp_ns = ts\<rparr>)) h = Some ord \<and> order_id ord = k"
  proof (cases "k = next_order_id s")
    case True
    with k show ?thesis by auto
  next
    case False
    with k have "order_lookup s k = Some h" by simp
    with assms obtain ord where "map_of (order_storage s) h = Some ord" "order_id ord = k"
      unfolding index_consistent_def by blast
    then show ?thesis using fresh_handle_unused [of "order_storage s"] by auto
  qed
qed

lemma cancelOrder_state:
  assumes "cancelOrder s oid = Inr (ok, s')"
  shows "(order_lookup s oid = None \<and> s' = s)
       \<or> (\<exists>h. order_lookup s oid = Some h
              \<and> order_lookup s' = (order_lookup s)(oid := None)
              \<and> map_of (order_storage s') = (map_of (order_storage s))(h := None))"
  using assms
  by (auto simp: cancelOrder_def map_sum_eq_Inr delete_conv'
      split: option.splits if_splits sum.splits)

lemma cancelOrder_index_consistent:
  assumes "cancelOrder s oid = Inr (ok, s')" and "index_consistent s"
  shows "index_consistent s'"
  using cancelOrder_state [OF assms(1)]
proof
  assume "order_lookup s oid = None \<and> s' = s"
  with assms(2) show ?thesis by simp
next
  assume "\<exists>h. order_lookup s oid = Some h
              \<and> order_lookup s' = (order_lookup s)(oid := None)
              \<and> map_of (order_storage s') = (map_of (order_storage s))(h := None)"
  then obtain h where h: "order_lookup s oid = Some h"
      and l: "order_lookup s' = (order_lookup s)(oid := None)"
      and n: "map_of (order_storage s') = (map_of (order_storage s))(h := None)"
    by blast
  show ?thesis
    unfolding index_consistent_def l n
  proof (intro allI impI)
    fix k h'
    assume "((order_lookup s)(oid := None)) k = Some h'"
    then have k: "k \<noteq> oid" "order_lookup s k = Some h'" by (auto split: if_splits)
    with assms(2) obtain ord where ord: "map_of (order_storage s) h' = Some ord" "order_id ord = k"
      unfolding index_consistent_def by blast
    from assms(2) h obtain ord0 where "map_of (order_storage s) h = Some ord0" "order_id ord0 = oid"
      unfolding index_consistent_def by blast
    with ord k have "h' \<noteq> h" by auto
    with ord show "\<exists>ord. ((map_of (order_storage s))(h := None)) h' = Some ord \<and> order_id ord = k"
      by simp
  qed
qed

lemma amendOrder_state:
  assumes "amendOrder s oid p q = Inr (ok, s')"
  shows "(order_lookup s oid = None \<and> s' = s)
       \<or> (\<exists>h ord. order_lookup s oid = Some h \<and> map_of (order_storage s) h = Some ord
              \<and> order_lookup s' = order_lookup s
              \<and> map_of (order_storage s') =
                  (map_of (order_storage s))(h \<mapsto> ord\<lparr>price := p, quantity := q\<rparr>))"
  using assms
  by (auto simp: amendOrder_def map_sum_eq_Inr update_conv' Let_def
      split: option.splits if_splits sum.splits)

lemma amendOrder_index_consistent:
  assumes "amendOrder s oid p q = Inr (ok, s')" and "index_consistent s"
  shows "index_consistent s'"
  using amendOrder_state [OF assms(1)]
proof
  assume "order_lookup s oid = None \<and> s' = s"
  with assms(2) show ?thesis by simp
next
  assume "\<exists>h ord. order_lookup s oid = Some h \<and> map_of (order_storage s) h = Some ord
              \<and> order_lookup s' = order_lookup s
              \<and> map_of (order_storage s') =
                  (map_of (order_storage s))(h \<mapsto> ord\<lparr>price := p, quantity := q\<rparr>)"
  then obtain h ord where h: "order_lookup s oid = Some h"
      and o: "map_of (order_storage s) h = Some ord"
      and l: "order_lookup s' = order_lookup s"
      and n: "map_of (order_storage s') =
                  (map_of (order_storage s))(h \<mapsto> ord\<lparr>price := p, quantity := q\<rparr>)"
    by blast
  show ?thesis
    unfolding index_consistent_def l n
  proof (intro allI impI)
    fix k h'
    assume k: "order_lookup s k = Some h'"
    with assms(2) obtain ord' where ord': "map_of (order_storage s) h' = Some ord'" "order_id ord' = k"
      unfolding index_consistent_def by blast
    with o show "\<exists>x. ((map_of (order_storage s))(h \<mapsto> ord\<lparr>price := p, quantity := q\<rparr>)) h' = Some x
        \<and> order_id x = k"
      by (cases "h' = h") auto
  qed
qed




lemma step_index_consistent:
  assumes "step s c = Inr (r, s')" and "index_consistent s"
  shows "index_consistent s'"
proof (cases c)
  case (NewOrder buy p q ts)
  with assms show ?thesis
    using newOrder_index_consistent [of s buy p q ts]
    by (cases "newOrder s buy p q ts") auto
next
  case (CancelOrder oid)
  with assms show ?thesis by (auto simp: map_sum_eq_Inr dest: cancelOrder_index_consistent)
next
  case (AmendOrder oid p q)
  with assms show ?thesis by (auto simp: map_sum_eq_Inr dest: amendOrder_index_consistent)
qed

lemma run_index_consistent:
  "run s cs = Inr (rs, s') \<Longrightarrow> index_consistent s \<Longrightarrow> index_consistent s'"
proof (induction cs arbitrary: s rs)
  case Nil
  then show ?case by simp
next
  case (Cons c cs)
  then show ?case
    by (auto split: sum.splits prod.splits dest: step_index_consistent)
qed

lemma reachable_index_consistent:
  "run empty_book cs = Inr (rs, s) \<Longrightarrow> index_consistent s"
  by (erule run_index_consistent) (simp add: index_consistent_def empty_book_def)

text \<open>In such a book no call dereferences an iterator that points to no node.\<close>

lemma index_consistent_no_invalid_iterator:
  assumes "index_consistent s"
  shows "cancelOrder s oid \<noteq> Inl InvalidOrderIterator
       \<and> amendOrder s oid p q \<noteq> Inl InvalidOrderIterator"
proof (cases "order_lookup s oid")
  case None
  then show ?thesis by (simp add: cancelOrder_def amendOrder_def)
next
  case (Some h)
  with assms obtain ord where "map_of (order_storage s) h = Some ord"
    unfolding index_consistent_def by blast
  with Some show ?thesis
    by (auto simp: cancelOrder_def amendOrder_def remove_order_internal_def Let_def
        split: option.splits sum.splits if_splits)
qed

subsection \<open>The ids in the index are below the counter\<close>

lemma word_less_succ:
  fixes k n :: u64
  shows "k < n \<Longrightarrow> n + 1 \<noteq> 0 \<Longrightarrow> k < n + 1"
  by unat_arith

lemma word_less_self_succ:
  fixes n :: u64
  shows "n + 1 \<noteq> 0 \<Longrightarrow> n < n + 1"
  by unat_arith

lemma newOrder_issued_ids:
  assumes "issued_ids_below_counter s" and "next_order_id s + 1 \<noteq> 0"
  shows "issued_ids_below_counter (snd (newOrder s buy p q ts))"
  using assms
  by (auto simp: issued_ids_below_counter_def newOrder_def Let_def
      intro: word_less_succ word_less_self_succ split: if_splits)

lemma cancelOrder_issued_ids:
  assumes "cancelOrder s oid = Inr (ok, s')" and "issued_ids_below_counter s"
  shows "issued_ids_below_counter s' \<and> next_order_id s' = next_order_id s"
  using assms
  by (auto simp: cancelOrder_def issued_ids_below_counter_def map_sum_eq_Inr
      split: option.splits if_splits sum.splits)

lemma amendOrder_issued_ids:
  assumes "amendOrder s oid p q = Inr (ok, s')" and "issued_ids_below_counter s"
  shows "issued_ids_below_counter s' \<and> next_order_id s' = next_order_id s"
  using assms
  by (auto simp: amendOrder_def issued_ids_below_counter_def map_sum_eq_Inr Let_def
      split: option.splits if_splits sum.splits)


lemma step_issued_ids:
  assumes "step s c = Inr (r, s')" and "issued_ids_below_counter s"
      and "unat (next_order_id s) + 1 < 2 ^ 64"
  shows "issued_ids_below_counter s' \<and> unat (next_order_id s') \<le> unat (next_order_id s) + 1"
proof (cases c)
  case (NewOrder buy p q ts)
  from assms(3) have succ: "unat (next_order_id s + 1) = unat (next_order_id s) + 1"
    by (simp add: unat_word_ariths)
  then have nz: "next_order_id s + 1 \<noteq> 0" by auto
  from succ have "unat (next_order_id s + 1) \<le> unat (next_order_id s) + 1" by simp
  with NewOrder assms(1) newOrder_issued_ids [OF assms(2) nz, of buy p q ts]
    newOrder_counter [of s buy p q ts]
  show ?thesis by (cases "newOrder s buy p q ts") auto
next
  case (CancelOrder oid)
  with assms show ?thesis by (auto simp: map_sum_eq_Inr dest: cancelOrder_issued_ids)
next
  case (AmendOrder oid p q)
  with assms show ?thesis by (auto simp: map_sum_eq_Inr dest: amendOrder_issued_ids)
qed

lemma run_issued_ids:
  "run s cs = Inr (rs, s') \<Longrightarrow> issued_ids_below_counter s
   \<Longrightarrow> unat (next_order_id s) + length cs < 2 ^ 64
   \<Longrightarrow> issued_ids_below_counter s' \<and> unat (next_order_id s') \<le> unat (next_order_id s) + length cs"
proof (induction cs arbitrary: s rs)
  case Nil
  then show ?case by simp
next
  case (Cons c cs)
  from Cons.prems(1) obtain r s1 rs1 where
    st: "step s c = Inr (r, s1)" and rn: "run s1 cs = Inr (rs1, s')"
    by (auto split: sum.splits prod.splits)
  from Cons.prems(3) have "unat (next_order_id s) + 1 < 2 ^ 64" by simp
  from step_issued_ids [OF st Cons.prems(2) this]
  have s1: "issued_ids_below_counter s1" "unat (next_order_id s1) \<le> unat (next_order_id s) + 1"
    by simp_all
  with Cons.prems(3) have "unat (next_order_id s1) + length cs < 2 ^ 64" by simp
  from Cons.IH [OF rn s1(1) this] s1(2) show ?case by simp
qed

lemma reachable_issued_ids:
  assumes "run empty_book cs = Inr (rs, s)" and "length cs < 2 ^ 64 - 1"
  shows "issued_ids_below_counter s"
proof -
  have "issued_ids_below_counter empty_book"
    by (simp add: issued_ids_below_counter_def empty_book_def)
  moreover have "unat (next_order_id empty_book) + length cs < 2 ^ 64"
    using assms(2) by (simp add: empty_book_def)
  ultimately show ?thesis using run_issued_ids [OF assms(1)] by simp
qed

subsection \<open>Evaluation of the books of \<open>main\<close>\<close>

lemmas book_eval = newOrder_def cancelOrder_def amendOrder_def remove_order_internal_def
  add_order_internal_def subscript_def empty_book_def Let_def

lemmas main_books = main_1_def main_2_def main_3_def main_4_def main_5_def main_6_def

lemma main_2_tables:
  "bids main_2 = [(100, \<lparr>total_quantity = 15, orders = [0, 1]\<rparr>)] \<and> asks main_2 = []"
  by (simp add: main_books book_eval)

lemma main_6_tables:
  "bids main_6 = [(100, \<lparr>total_quantity = 15, orders = [0, 1]\<rparr>),
                  (99, \<lparr>total_quantity = 20, orders = [2]\<rparr>)]
   \<and> asks main_6 = [(100, \<lparr>total_quantity = 15, orders = [3]\<rparr>),
                     (101, \<lparr>total_quantity = 5, orders = [5]\<rparr>),
                     (102, \<lparr>total_quantity = 10, orders = [4]\<rparr>)]"
  by (simp add: main_books book_eval)

lemma main_2_first_order:
  "order_lookup main_2 1 = Some 0
   \<and> map_of (order_storage main_2) 0 =
       Some \<lparr>order_id = 1, is_buy = True, price = 100, quantity = 10, timestamp_ns = 1000\<rparr>"
  by (simp add: main_books book_eval)

lemma main_6_sorted: "sorted_book main_6"
  by (simp add: sorted_book_def main_6_tables)

section \<open>Unknown order ids\<close>

text \<open>
  C3. When \<open>order_id\<close> is not a key of \<open>order_lookup\<close> (it was never issued, or the order
  was cancelled), \<open>cancelOrder\<close> and \<open>amendOrder\<close> return \<open>false\<close> and the book after the
  call is the book before it, in every component.
\<close>

theorem not_found_leaves_book_unchanged:
  assumes "order_lookup s oid = None"
  shows "cancelOrder s oid = Inr (False, s) \<and> amendOrder s oid p q = Inr (False, s)"
  using assms by (simp add: cancelOrder_def amendOrder_def)

theorem not_found_leaves_book_unchanged_witness:
  "order_lookup (snd (newOrder empty_book True 100 10 1000)) 999999 = None
   \<and> cancelOrder (snd (newOrder empty_book True 100 10 1000)) 999999 =
       Inr (False, snd (newOrder empty_book True 100 10 1000))
   \<and> amendOrder (snd (newOrder empty_book True 100 10 1000)) 999999 (201 / 2) 7 =
       Inr (False, snd (newOrder empty_book True 100 10 1000))"
proof -
  have absent: "order_lookup (snd (newOrder empty_book True 100 10 1000)) 999999 = None"
    by (simp add: newOrder_def empty_book_def Let_def)
  from not_found_leaves_book_unchanged [OF absent, of "201 / 2" 7] absent
  show ?thesis by simp
qed

section \<open>What \<open>newOrder\<close> leaves alone\<close>

text \<open>
  C9. \<open>newOrder\<close> never touches the table of the opposite side, whatever the price, so
  no crossing takes place. Nothing that rests in the book is matched, reduced or removed:
  \<open>order_storage\<close> keeps every node and gets the new one at its end, every level of the
  order's own side at another price is left as it is and in place, and the level at the
  order's price keeps its members, in order, in front of the new order. The index gets
  the entry of the new id.
\<close>

theorem newOrder_leaves_resting_orders:
  "asks (snd (newOrder s True p q ts)) = asks s
   \<and> bids (snd (newOrder s False p q ts)) = bids s
   \<and> order_storage (snd (newOrder s buy p q ts)) =
       order_storage s @ [(fresh_handle (order_storage s),
          \<lparr>order_id = next_order_id s, is_buy = buy, price = p, quantity = q,
           timestamp_ns = ts\<rparr>)]
   \<and> order_lookup (snd (newOrder s buy p q ts)) =
       (order_lookup s)(next_order_id s \<mapsto> fresh_handle (order_storage s))
   \<and> AList.delete p (book_side (snd (newOrder s buy p q ts)) buy) =
       AList.delete p (book_side s buy)
   \<and> map_of (book_side (snd (newOrder s buy p q ts)) buy) p =
       Some \<lparr>total_quantity = total_at (book_side s buy) p + q,
             orders = members_at (book_side s buy) p @ [fresh_handle (order_storage s)]\<rparr>"
  by (simp add: newOrder_def Let_def book_side_def map_of_add_order_internal
      delete_add_order_internal)

section \<open>Amending the quantity at the same price\<close>

lemma map_of_bumped:
  "map_of (AList.map_entry p f (subscript lt t p)) =
     (map_of t)(p \<mapsto> f \<lparr>total_quantity = total_at t p, orders = members_at t p\<rparr>)"
  by (simp add: map_of_map_entry map_of_subscript)

lemma members_at_bumped:
  assumes "\<And>l. orders (f l) = orders l"
  shows "members_at (AList.map_entry p f (subscript lt t p)) = members_at t"
  by (rule ext) (simp add: members_at_def map_of_bumped assms)

lemma total_at_bumped:
  "total_at (AList.map_entry p f (subscript lt t p)) p =
     total_quantity (f \<lparr>total_quantity = total_at t p, orders = members_at t p\<rparr>)"
  by (simp add: total_at_def map_of_bumped)

text \<open>
  C4. Let \<open>oid\<close> be the id of a live order: the index leads from it to a node. (In every
  book that calls produce, each id of the index is such an id, by
  \<open>reachable_index_consistent\<close>.) \<open>amendOrder\<close> with the order's own price returns
  \<open>true\<close>. The index is unchanged; the node holds the new quantity and is otherwise
  unchanged. At every price of both tables the member sequence is the one before the
  call, so the order keeps its place in its level. The \<open>total_quantity\<close> of the level of
  the order's price becomes the old value plus the signed difference
  \<open>new_quantity - quantity\<close>, computed in 64 bits as the source does: it is the old total
  plus the integer difference modulo \<open>2 ^ 64\<close>, and exactly the old total plus the
  (possibly negative) integer difference when the order's old quantity is within the
  total and the result fits in 64 bits. When the table has the level, the level after the
  call is the level before it with only that total changed.
\<close>

theorem amend_quantity_keeps_time_priority:
  assumes "order_lookup s oid = Some order_it"
      and "map_of (order_storage s) order_it = Some ord"
      and "new_price = price ord"
  shows "\<exists>s'. amendOrder s oid new_price new_quantity = Inr (True, s')
      \<and> order_lookup s' = order_lookup s
      \<and> map_of (order_storage s') order_it = Some (ord\<lparr>quantity := new_quantity\<rparr>)
      \<and> members_at (bids s') = members_at (bids s)
      \<and> members_at (asks s') = members_at (asks s)
      \<and> total_at (book_side s' (is_buy ord)) (price ord) =
          total_at (book_side s (is_buy ord)) (price ord)
            + word_of_int (sint (new_quantity - quantity ord))
      \<and> uint (total_at (book_side s' (is_buy ord)) (price ord)) =
          (uint (total_at (book_side s (is_buy ord)) (price ord))
            + (uint new_quantity - uint (quantity ord))) mod 2 ^ 64
      \<and> (uint (quantity ord) \<le> uint (total_at (book_side s (is_buy ord)) (price ord))
           \<and> uint (total_at (book_side s (is_buy ord)) (price ord))
               + (uint new_quantity - uint (quantity ord)) < 2 ^ 64
           \<longrightarrow> uint (total_at (book_side s' (is_buy ord)) (price ord)) =
                uint (total_at (book_side s (is_buy ord)) (price ord))
                  + (uint new_quantity - uint (quantity ord)))
      \<and> (map_of (book_side s (is_buy ord)) (price ord) = Some limit
           \<longrightarrow> map_of (book_side s' (is_buy ord)) (price ord) =
                Some (limit\<lparr>total_quantity :=
                        total_quantity limit
                          + word_of_int (sint (new_quantity - quantity ord))\<rparr>))"
proof -
  let ?total = "total_at (book_side s (is_buy ord)) (price ord)"
  have exact: "(uint ?total + (uint new_quantity - uint (quantity ord))) mod 2 ^ 64 =
      uint ?total + (uint new_quantity - uint (quantity ord))"
    if "uint (quantity ord) \<le> uint ?total"
      and "uint ?total + (uint new_quantity - uint (quantity ord)) < 2 ^ 64"
  proof (rule mod_pos_pos_trivial)
    from that(1) uint_ge_0 [of new_quantity]
    show "0 \<le> uint ?total + (uint new_quantity - uint (quantity ord))"
      by linarith
    from that(2) show "uint ?total + (uint new_quantity - uint (quantity ord)) < 2 ^ 64" .
  qed
  from assms exact show ?thesis
    by (cases "is_buy ord")
       (simp_all add: amendOrder_def Let_def book_side_def update_conv' members_at_bumped
          total_at_bumped uint_signed_delta map_of_map_entry subscript_present)
qed

theorem amend_quantity_keeps_time_priority_witness:
  "order_lookup main_2 1 = Some 0
   \<and> map_of (order_storage main_2) 0 =
       Some \<lparr>order_id = 1, is_buy = True, price = 100, quantity = 10, timestamp_ns = 1000\<rparr>
   \<and> map_of (bids main_2) 100 = Some \<lparr>total_quantity = 15, orders = [0, 1]\<rparr>
   \<and> (\<exists>s'. amendOrder main_2 1 100 20 = Inr (True, s')
        \<and> map_of (order_storage s') 0 =
            Some \<lparr>order_id = 1, is_buy = True, price = 100, quantity = 20,
                  timestamp_ns = 1000\<rparr>
        \<and> map_of (bids s') 100 = Some \<lparr>total_quantity = 25, orders = [0, 1]\<rparr>)
   \<and> (\<exists>s'. amendOrder main_2 1 100 4 = Inr (True, s')
        \<and> map_of (bids s') 100 = Some \<lparr>total_quantity = 9, orders = [0, 1]\<rparr>
        \<and> uint (total_at (bids s') 100) = 15 + (4 - 10))"
proof -
  let ?ord = "\<lparr>order_id = 1, is_buy = True, price = 100, quantity = 10,
                timestamp_ns = 1000\<rparr>"
  let ?limit = "\<lparr>total_quantity = 15, orders = [0, 1]\<rparr>"
  have index: "order_lookup main_2 1 = Some 0"
    and node: "map_of (order_storage main_2) 0 = Some ?ord"
    using main_2_first_order by simp_all
  have level: "map_of (bids main_2) 100 = Some ?limit"
    by (simp add: main_2_tables)
  have same: "(100::rat) = price ?ord" by simp
  from amend_quantity_keeps_time_priority [OF index node same, of 20 ?limit] level
  have up: "\<exists>s'. amendOrder main_2 1 100 20 = Inr (True, s')
        \<and> map_of (order_storage s') 0 =
            Some \<lparr>order_id = 1, is_buy = True, price = 100, quantity = 20,
                  timestamp_ns = 1000\<rparr>
        \<and> map_of (bids s') 100 = Some \<lparr>total_quantity = 25, orders = [0, 1]\<rparr>"
    by (auto simp: book_side_def)
  from amend_quantity_keeps_time_priority [OF index node same, of 4 ?limit] level
  have down: "\<exists>s'. amendOrder main_2 1 100 4 = Inr (True, s')
        \<and> map_of (bids s') 100 = Some \<lparr>total_quantity = 9, orders = [0, 1]\<rparr>
        \<and> uint (total_at (bids s') 100) = 15 + (4 - 10)"
    by (auto simp: book_side_def total_at_def)
  from index node level up down show ?thesis by simp
qed

section \<open>Amending the price\<close>

lemma amend_price_of_member:
  assumes "order_lookup s oid = Some order_it"
      and "map_of (order_storage s) order_it = Some ord"
      and "price ord \<noteq> new_price"
      and "map_of (book_side s (is_buy ord)) (price ord) = Some limit"
      and "order_it \<in> set (orders limit)"
  shows "\<exists>s'. amendOrder s oid new_price new_quantity = Inr (True, s')
      \<and> map_of (order_storage s') order_it =
          Some (ord\<lparr>price := new_price, quantity := new_quantity\<rparr>)
      \<and> map_of (book_side s' (is_buy ord)) new_price =
          Some \<lparr>total_quantity = total_at (book_side s (is_buy ord)) new_price + new_quantity,
                orders = members_at (book_side s (is_buy ord)) new_price @ [order_it]\<rparr>
      \<and> map_of (book_side s' (is_buy ord)) (price ord) =
          (if total_quantity limit - quantity ord = 0 then None
           else Some \<lparr>total_quantity = total_quantity limit - quantity ord,
                      orders = remove1 order_it (orders limit)\<rparr>)
      \<and> book_side s' (\<not> is_buy ord) = book_side s (\<not> is_buy ord)"
  using assms
  by (cases "is_buy ord")
     (auto simp: amendOrder_def Let_def book_side_def remove_order_internal_def
        update_conv' delete_conv' map_of_add_order_internal total_at_def members_at_def)

lemma amend_price_as_cancel_then_reinsert:
  assumes "order_lookup s oid = Some order_it"
      and "map_of (order_storage s) order_it = Some ord"
      and "order_id ord = oid"
      and "price ord \<noteq> new_price"
  shows "map_sum id (map_prod id book_view) (amendOrder s oid new_price new_quantity) =
         map_sum id (map_prod id book_view) (cancel_then_reinsert s oid new_price new_quantity)"
proof -
  have index: "(order_lookup s)(oid \<mapsto> order_it) = order_lookup s"
    using assms(1) by (simp add: map_upd_triv)
  show ?thesis
  proof (cases "is_buy ord")
    case True
    show ?thesis
    proof (cases "remove_order_internal (bids s) order_it ord")
      case (Inl e)
      with True assms show ?thesis
        by (simp add: amendOrder_def cancel_then_reinsert_def cancelOrder_def)
    next
      case (Inr b)
      with True assms index show ?thesis
        by (simp add: amendOrder_def cancel_then_reinsert_def cancelOrder_def Let_def
            reinsertOrder_def book_view_def map_of_update_as_reinsert)
    qed
  next
    case False
    show ?thesis
    proof (cases "remove_order_internal (asks s) order_it ord")
      case (Inl e)
      with False assms show ?thesis
        by (simp add: amendOrder_def cancel_then_reinsert_def cancelOrder_def)
    next
      case (Inr a)
      with False assms index show ?thesis
        by (simp add: amendOrder_def cancel_then_reinsert_def cancelOrder_def Let_def
            reinsertOrder_def book_view_def map_of_update_as_reinsert)
    qed
  qed
qed

text \<open>
  C5. The claim says that \<open>amendOrder\<close> with another price removes the order from the
  level of its old price, erases that level if it empties, and appends the order to the
  level of the new price. The code breaks it. Order 1 (quantity 0) and order 2
  (quantity 5) rest at price 100, in a level of total 5. Amending order 2 to the price 101
  brings the total of the old level to 0, so \<open>remove_order_internal\<close> erases the level
  although order 1 is still a member: the bid table then holds the level of price 101
  only, while order 1 stays in \<open>order_storage\<close> at price 100 and in the index.
  (\<open>cancelOrder\<close> followed by the re-insertion erases the level in the same way, by
  \<open>amend_price_as_cancel_then_reinsert\<close>.)
\<close>

theorem amend_price_erases_level_with_member:
  "map_sum id (map_prod id bids)
     (run empty_book [NewOrder True 100 0 1000, NewOrder True 100 5 2000]) =
     Inr ([NewId 1, NewId 2], [(100, \<lparr>total_quantity = 5, orders = [0, 1]\<rparr>)])
   \<and> map_sum id (map_prod id bids)
     (run empty_book [NewOrder True 100 0 1000, NewOrder True 100 5 2000,
                      AmendOrder 2 101 5]) =
     Inr ([NewId 1, NewId 2, Success True], [(101, \<lparr>total_quantity = 5, orders = [1]\<rparr>)])
   \<and> map_sum id (map_prod id order_storage)
     (run empty_book [NewOrder True 100 0 1000, NewOrder True 100 5 2000,
                      AmendOrder 2 101 5]) =
     Inr ([NewId 1, NewId 2, Success True],
          [(0, \<lparr>order_id = 1, is_buy = True, price = 100, quantity = 0,
                 timestamp_ns = 1000\<rparr>),
           (1, \<lparr>order_id = 2, is_buy = True, price = 101, quantity = 5,
                 timestamp_ns = 2000\<rparr>)])
   \<and> map_sum id (map_prod id (\<lambda>s. order_lookup s 1))
     (run empty_book [NewOrder True 100 0 1000, NewOrder True 100 5 2000,
                      AmendOrder 2 101 5]) =
     Inr ([NewId 1, NewId 2, Success True], Some 0)"
  by (simp add: book_eval)

section \<open>Orders of quantity zero\<close>





section \<open>The best bid and offer of an empty side\<close>

text \<open>
  The source initialises both results of \<open>getBBO\<close> with \<open>{0, 0}\<close> and overwrites a result
  only when its side has a level. The empty book and the book that holds one buy order of
  quantity 0 at price 0 therefore have the same best bid and offer, although the bid
  table of the first is empty and that of the second is not.
\<close>

theorem getBBO_empty_side_is_price_zero:
  "bids empty_book = []
   \<and> getBBO empty_book = (\<lparr>price_pl = 0, total_quantity_pl = 0\<rparr>,
                           \<lparr>price_pl = 0, total_quantity_pl = 0\<rparr>)
   \<and> bids (snd (newOrder empty_book True 0 0 1000)) =
       [(0, \<lparr>total_quantity = 0, orders = [0]\<rparr>)]
   \<and> getBBO (snd (newOrder empty_book True 0 0 1000)) = getBBO empty_book"
  by (simp add: book_eval getBBO_def)

text \<open>
  C7, amended. For every book, \<open>getBBO\<close> returns for each side the first level of the
  side's table, as its price and its total quantity, when the table has a level, and the
  pair of price 0 and quantity 0 when it has none. There is no separate marker for an
  empty side: the result for an empty side is the result for a side whose first level has
  price 0 and total quantity 0. When the tables are in the order of their comparison, as
  they are in every book that calls produce, the first level is the best one: no bid has a
  higher price than the reported bid, no ask a lower price than the reported ask.
\<close>

theorem getBBO_first_level_or_zero:
  "fst (getBBO s) =
     (case bids s of
        [] \<Rightarrow> \<lparr>price_pl = 0, total_quantity_pl = 0\<rparr>
      | top_bid # _ \<Rightarrow> level_of top_bid)
   \<and> snd (getBBO s) =
     (case asks s of
        [] \<Rightarrow> \<lparr>price_pl = 0, total_quantity_pl = 0\<rparr>
      | top_ask # _ \<Rightarrow> level_of top_ask)
   \<and> (sorted_book s \<longrightarrow>
        list_all (\<lambda>pair. fst pair \<le> price_pl (fst (getBBO s))) (bids s)
        \<and> list_all (\<lambda>pair. price_pl (snd (getBBO s)) \<le> fst pair) (asks s))"
  by (cases "bids s"; cases "asks s")
     (auto simp: getBBO_def level_of_def sorted_book_def list_all_iff)

theorem getBBO_first_level_or_zero_witness:
  "sorted_book main_6
   \<and> getBBO main_6 = (\<lparr>price_pl = 100, total_quantity_pl = 15\<rparr>,
                       \<lparr>price_pl = 100, total_quantity_pl = 15\<rparr>)
   \<and> list_all (\<lambda>pair. fst pair \<le> 100) (bids main_6)
   \<and> list_all (\<lambda>pair. 100 \<le> fst pair) (asks main_6)"
proof -
  have bbo: "getBBO main_6 = (\<lparr>price_pl = 100, total_quantity_pl = 15\<rparr>,
                              \<lparr>price_pl = 100, total_quantity_pl = 15\<rparr>)"
    by (simp add: getBBO_def main_6_tables)
  from getBBO_first_level_or_zero [of main_6] main_6_sorted bbo show ?thesis
    by simp
qed

section \<open>Arguments are not validated\<close>

text \<open>
  Neither \<open>newOrder\<close> nor \<open>amendOrder\<close> looks at the sign of the price. On the empty book
  \<open>newOrder\<close> with price \<open>-1\<close> returns the id 1 and leaves a bid level at price \<open>-1\<close>;
  \<open>amendOrder\<close> moves a resting order to the price \<open>-2\<close> and returns \<open>true\<close>.
\<close>

theorem negative_price_is_accepted:
  "newOrder empty_book True (- 1) 5 1000 \<noteq> (1, empty_book)
   \<and> fst (newOrder empty_book True (- 1) 5 1000) = 1
   \<and> bids (snd (newOrder empty_book True (- 1) 5 1000)) =
       [(- 1, \<lparr>total_quantity = 5, orders = [0]\<rparr>)]
   \<and> map_sum id (map_prod id bids) (amendOrder main_1 1 (- 2) 5) =
       Inr (True, [(- 2, \<lparr>total_quantity = 5, orders = [0]\<rparr>)])"
  by (simp add: main_1_def book_eval)

text \<open>
  C8, amended. \<open>newOrder\<close> and \<open>amendOrder\<close> do not reject a price, whatever its sign.
  \<open>newOrder\<close> with any price, a negative one included, returns the next id, changes the
  book, registers the order in the index and stores it with that price and quantity.
  \<open>amendOrder\<close> on an order that rests in the level of its price, with any new price and
  quantity, returns \<open>true\<close> and stores them in the order. The quantities are unsigned
  64-bit integers, so no negative quantity reaches either function.
\<close>

theorem arguments_are_not_validated:
  "fst (newOrder s buy p q ts) = next_order_id s
   \<and> snd (newOrder s buy p q ts) \<noteq> s
   \<and> order_lookup (snd (newOrder s buy p q ts)) (next_order_id s) =
       Some (fresh_handle (order_storage s))
   \<and> map_of (order_storage (snd (newOrder s buy p q ts))) (fresh_handle (order_storage s)) =
       Some \<lparr>order_id = next_order_id s, is_buy = buy, price = p, quantity = q,
             timestamp_ns = ts\<rparr>
   \<and> (order_lookup s oid = Some order_it
        \<and> map_of (order_storage s) order_it = Some ord
        \<and> map_of (book_side s (is_buy ord)) (price ord) = Some limit
        \<and> order_it \<in> set (orders limit) \<longrightarrow>
        (\<exists>s'. amendOrder s oid p q = Inr (True, s')
           \<and> map_of (order_storage s') order_it = Some (ord\<lparr>price := p, quantity := q\<rparr>)))"
proof -
  have changed: "snd (newOrder s buy p q ts) \<noteq> s"
  proof
    assume "snd (newOrder s buy p q ts) = s"
    then have "order_storage (snd (newOrder s buy p q ts)) = order_storage s"
      by (rule arg_cong)
    then show False by (simp add: newOrder_storage)
  qed
  have amend: "\<exists>s'. amendOrder s oid p q = Inr (True, s')
           \<and> map_of (order_storage s') order_it = Some (ord\<lparr>price := p, quantity := q\<rparr>)"
    if "order_lookup s oid = Some order_it" "map_of (order_storage s) order_it = Some ord"
       "map_of (book_side s (is_buy ord)) (price ord) = Some limit"
       "order_it \<in> set (orders limit)"
    using that
    by (cases "is_buy ord"; cases "price ord = p")
       (auto simp: amendOrder_def Let_def book_side_def remove_order_internal_def update_conv'
          intro: Order.equality)
  from changed amend show ?thesis
    by (simp add: newOrder_def Let_def fresh_handle_unused map_add_def)
qed

theorem arguments_are_not_validated_witness:
  "fst (newOrder main_2 False (- 1) 5 7000) = 3
   \<and> order_lookup (snd (newOrder main_2 False (- 1) 5 7000)) 3 = Some 2
   \<and> map_of (order_storage (snd (newOrder main_2 False (- 1) 5 7000))) 2 =
       Some \<lparr>order_id = 3, is_buy = False, price = - 1, quantity = 5, timestamp_ns = 7000\<rparr>
   \<and> order_lookup main_2 1 = Some 0
   \<and> map_of (bids main_2) 100 = Some \<lparr>total_quantity = 15, orders = [0, 1]\<rparr>
   \<and> (\<exists>s'. amendOrder main_2 1 (- 1) 5 = Inr (True, s')
        \<and> map_of (order_storage s') 0 =
            Some \<lparr>order_id = 1, is_buy = True, price = - 1, quantity = 5,
                  timestamp_ns = 1000\<rparr>)"
proof -
  let ?ord = "\<lparr>order_id = 1, is_buy = True, price = 100, quantity = 10,
                timestamp_ns = 1000\<rparr>"
  let ?limit = "\<lparr>total_quantity = 15, orders = [0, 1]\<rparr>"
  have index: "order_lookup main_2 1 = Some 0"
    and node: "map_of (order_storage main_2) 0 = Some ?ord"
    using main_2_first_order by simp_all
  have level: "map_of (book_side main_2 (is_buy ?ord)) (price ?ord) = Some ?limit"
    by (simp add: book_side_def main_2_tables)
  have counter: "next_order_id main_2 = 3" and slot: "fresh_handle (order_storage main_2) = 2"
    by (simp_all add: main_books book_eval)
  from arguments_are_not_validated [of main_2 False "- 1" 5 7000 1 0 ?ord ?limit]
    index node level counter slot
  show ?thesis by (simp add: book_side_def)
qed

section \<open>Levels whose total is zero\<close>

text \<open>
  \<open>remove_order_internal\<close> erases a level when its \<open>total_quantity\<close> has become 0, and
  its comment calls such a level empty. The total is 0 as well when orders of quantity 0
  are still members, and the other paths that change a total (\<open>add_order_internal\<close>, the
  branch of \<open>amendOrder\<close> for an unchanged price) never erase. The three sequences of
  calls below start from the empty book.
\<close>

text \<open>
  C1. The invariant says that the \<open>total_quantity\<close> of every level in a table is the sum
  of the quantities of its members. The code breaks it. Order 1 (quantity 0) and order 2
  (quantity 5) rest at price 100. Cancelling order 2 brings the total to 0, so the level
  is erased although order 1 is still a member; order 1 stays in the index and in
  \<open>order_storage\<close>. Amending order 1 to quantity 7 at the same price makes \<open>operator[]\<close>
  create a level without members and adds 7 to its total: the bid table then has a level
  with \<open>total_quantity = 7\<close> and no member.
\<close>

theorem quantity_sum_broken_by_erased_level:
  "map_sum id (map_prod id bids)
     (run empty_book [NewOrder True 100 0 1000, NewOrder True 100 5 2000, CancelOrder 2,
                      AmendOrder 1 100 7]) =
     Inr ([NewId 1, NewId 2, Success True, Success True],
          [(100, \<lparr>total_quantity = 7, orders = []\<rparr>)])
   \<and> map_sum id (map_prod id quantity_sum_invariant)
     (run empty_book [NewOrder True 100 0 1000, NewOrder True 100 5 2000, CancelOrder 2,
                      AmendOrder 1 100 7]) =
     Inr ([NewId 1, NewId 2, Success True, Success True], False)"
  by (simp add: book_eval quantity_sum_invariant_def level_quantity_sum_def)

text \<open>
  C2. The invariant says that a level is in a table only if its total is positive and it
  has a member, and that no call leaves a level of total 0. The code breaks it. Order 1
  rests with quantity 10 at price 100; amending it to quantity 0 at the same price adds
  the difference to the total and leaves the level in the bid table with
  \<open>total_quantity = 0\<close>.
\<close>

theorem zero_level_left_by_amend:
  "map_sum id (map_prod id bids)
     (run empty_book [NewOrder True 100 10 1000, AmendOrder 1 100 0]) =
     Inr ([NewId 1, Success True], [(100, \<lparr>total_quantity = 0, orders = [0]\<rparr>)])
   \<and> map_sum id (map_prod id level_existence_invariant)
     (run empty_book [NewOrder True 100 10 1000, AmendOrder 1 100 0]) =
     Inr ([NewId 1, Success True], False)"
  by (simp add: book_eval level_existence_invariant_def)

text \<open>
  C6. The round trip says that \<open>newOrder\<close> followed by \<open>cancelOrder\<close> of the returned id
  restores the levels, their totals, their members and the best bid and offer. The code
  breaks it. In the book that holds order 1 with quantity 0 at price 100, the bid table
  has the level of price 100 and \<open>getBBO\<close> reports the bid \<open>(100, 0)\<close>. \<open>newOrder\<close> of 5
  at price 100 returns the id 2 and \<open>cancelOrder\<close> of 2 returns \<open>true\<close>, but the
  cancellation brings the total back to 0 and erases the level: the bid table is empty
  afterwards and \<open>getBBO\<close> reports the bid \<open>(0, 0)\<close>.
\<close>

theorem round_trip_erases_zero_level:
  "map_sum id (map_prod id bids) (run empty_book [NewOrder True 100 0 1000]) =
     Inr ([NewId 1], [(100, \<lparr>total_quantity = 0, orders = [0]\<rparr>)])
   \<and> map_sum id (map_prod id getBBO) (run empty_book [NewOrder True 100 0 1000]) =
     Inr ([NewId 1], (\<lparr>price_pl = 100, total_quantity_pl = 0\<rparr>,
                      \<lparr>price_pl = 0, total_quantity_pl = 0\<rparr>))
   \<and> map_sum id (map_prod id bids)
       (run empty_book [NewOrder True 100 0 1000, NewOrder True 100 5 2000, CancelOrder 2]) =
     Inr ([NewId 1, NewId 2, Success True], [])
   \<and> map_sum id (map_prod id getBBO)
       (run empty_book [NewOrder True 100 0 1000, NewOrder True 100 5 2000, CancelOrder 2]) =
     Inr ([NewId 1, NewId 2, Success True],
          (\<lparr>price_pl = 0, total_quantity_pl = 0\<rparr>,
           \<lparr>price_pl = 0, total_quantity_pl = 0\<rparr>))"
  by (simp add: book_eval getBBO_def)

subsection \<open>Where the round trip does hold\<close>

lemma update_after_map_entry:
  "map_of t p = Some l \<Longrightarrow> AList.update p l (AList.map_entry p f t) = t"
  by (induction t) (auto split: if_splits)

lemma delete_absent: "map_of t p = None \<Longrightarrow> AList.delete p t = t"
  by (simp add: map_of_eq_None_iff)

lemma delete_appended: "map_of st h = None \<Longrightarrow> AList.delete h (st @ [(h, v)]) = st"
  by (induction st) (auto split: if_splits)

lemma remove_after_add:
  assumes "h \<notin> set (members_at t (price ord))"
      and "map_of t (price ord) = None \<or> total_at t (price ord) \<noteq> 0"
  shows "remove_order_internal (add_order_internal lt t h ord) h ord = Inr t"
proof (cases "map_of t (price ord)")
  case None
  then have "AList.delete (price ord) (add_order_internal lt t h ord) = t"
    by (simp add: delete_add_order_internal delete_absent)
  with None show ?thesis
    by (simp add: remove_order_internal_def map_of_add_order_internal total_at_def
        members_at_def)
next
  case (Some l)
  with assms have total: "total_quantity l \<noteq> 0" and fresh: "h \<notin> set (orders l)"
    by (simp_all add: total_at_def members_at_def)
  from Some have "add_order_internal lt t h ord =
      AList.map_entry (price ord)
        (\<lambda>limit. limit\<lparr>orders := orders limit @ [h],
                       total_quantity := total_quantity limit + quantity ord\<rparr>) t"
    by (simp add: add_order_internal_def Let_def subscript_present)
  moreover have "\<lparr>total_quantity = total_quantity l, orders = orders l\<rparr> = l"
    by simp
  ultimately show ?thesis
    using Some total fresh
    by (simp add: remove_order_internal_def map_of_map_entry remove1_append
        update_after_map_entry)
qed

lemma newOrder_cancelOrder_round_trip:
  assumes "order_lookup s (next_order_id s) = None"
      and "fresh_handle (order_storage s) \<notin> set (members_at (book_side s buy) p)"
      and "map_of (book_side s buy) p = None \<or> total_at (book_side s buy) p \<noteq> 0"
  shows "cancelOrder (snd (newOrder s buy p q ts)) (fst (newOrder s buy p q ts)) =
         Inr (True, s\<lparr>next_order_id := next_order_id s + 1\<rparr>)"
proof -
  let ?h = "fresh_handle (order_storage s)"
  let ?ord = "\<lparr>order_id = next_order_id s, is_buy = buy, price = p, quantity = q,
                timestamp_ns = ts\<rparr>"
  have storage: "AList.delete ?h (order_storage s @ [(?h, ?ord)]) = order_storage s"
    by (simp add: delete_appended fresh_handle_unused)
  have index: "((order_lookup s)(next_order_id s \<mapsto> ?h))(next_order_id s := None) =
      order_lookup s"
    using assms(1) by (auto simp: fun_upd_idem)
  have node: "map_of (order_storage s @ [(?h, ?ord)]) ?h = Some ?ord"
    by (simp add: fresh_handle_unused map_add_def)
  from assms(2,3) have
    restored: "remove_order_internal (add_order_internal lt (book_side s buy) ?h ?ord) ?h ?ord =
      Inr (book_side s buy)" for lt
    using remove_after_add [of ?h "book_side s buy" ?ord lt] by simp
  show ?thesis
  proof (cases buy)
    case True
    with restored [of "(>)"] storage index node show ?thesis
      by (simp add: newOrder_def cancelOrder_def Let_def book_side_def)
  next
    case False
    with restored [of "(<)"] storage index node show ?thesis
      by (simp add: newOrder_def cancelOrder_def Let_def book_side_def)
  qed
qed

subsection \<open>An erase through a position that is gone\<close>

text \<open>
  After the level of price 100 has been erased with order 1 still in it, a new level at
  that price does not hold order 1, and \<open>cancelOrder\<close> of order 1 erases through the
  order's stale \<open>position_in_limit\<close>: undefined behaviour in C++, the error
  \<open>InvalidLimitPosition\<close> here.
\<close>

lemma stale_position_is_reachable:
  "run empty_book [NewOrder True 100 0 1000, NewOrder True 100 5 2000, CancelOrder 2,
                   NewOrder True 100 5 3000, CancelOrder 1] = Inl InvalidLimitPosition"
  by (simp add: book_eval)


end
